theory Spec2Isabelle
  imports Main "HOL-Library.Sublist"
begin

section \<open>The blog workflow of \<^verbatim>\<open>app.py\<close>\<close>

text \<open>
  The program builds a graph of four step functions over one shared state and runs it:
  a title step, then a loop of content generation, review and evaluation that is left
  when the evaluation says Pass. Every step makes one call to a language model. The
  model below keeps the state, the four step functions, the router and the edges of
  \<^verbatim>\<open>init_graph\<close> as the source has them. The language model and the display calls of the
  user interface are outside the program: the language model is a parameter, the display
  calls change nothing in the state and are left out.
\<close>

subsection \<open>Text\<close>

text \<open>
  A Python \<^verbatim>\<open>str\<close> is a sequence of code points. A \<^typ>\<open>char\<close> stands for a code
  point in the range U+0000..U+00FF, so a \<^typ>\<open>string\<close> is a text over that range.
  Upper-casing leaves the range for two of its characters, so its result is a list of
  code points as numbers.
\<close>

definition nl :: string where
  "nl = [CHR 0x0A]"

definition dq :: string where
  "dq = [CHR 0x22]"

definition codepoints :: "string \<Rightarrow> nat list" where
  "codepoints s = map of_char s"

text \<open>\<^verbatim>\<open>str.isspace\<close> on one character: the white space of U+0000..U+00FF.\<close>

definition isspace :: "char \<Rightarrow> bool" where
  "isspace c =
     (let n = (of_char c :: nat)
      in (9 \<le> n \<and> n \<le> 13) \<or> (28 \<le> n \<and> n \<le> 32) \<or> n = 0x85 \<or> n = 0xA0)"

text \<open>\<^verbatim>\<open>s.strip()\<close> removes white space at both ends, \<^verbatim>\<open>s.strip(chars)\<close> the
  characters of \<^verbatim>\<open>chars\<close>.\<close>

definition strip_where :: "(char \<Rightarrow> bool) \<Rightarrow> string \<Rightarrow> string" where
  "strip_where P s = rev (dropWhile P (rev (dropWhile P s)))"

definition strip :: "string \<Rightarrow> string" where
  "strip s = strip_where isspace s"

definition strip_chars :: "string \<Rightarrow> string \<Rightarrow> string" where
  "strip_chars chars s = strip_where (\<lambda>c. c \<in> set chars) s"

text \<open>
  \<^verbatim>\<open>str.upper\<close> on one character of U+0000..U+00FF, as code points: the letters a..z
  and the accented small letters move down by 32, the sharp s (U+00DF) becomes the two
  letters SS, the micro sign (U+00B5) becomes U+039C, the y with diaeresis (U+00FF)
  becomes U+0178, every other character stays.
\<close>

definition upper_char :: "char \<Rightarrow> nat list" where
  "upper_char c =
     (let n = (of_char c :: nat)
      in if 0x61 \<le> n \<and> n \<le> 0x7A then [n - 32]
         else if n = 0xB5 then [0x39C]
         else if n = 0xDF then [0x53, 0x53]
         else if 0xE0 \<le> n \<and> n \<le> 0xFE \<and> n \<noteq> 0xF7 then [n - 32]
         else if n = 0xFF then [0x178]
         else [n])"

definition upper :: "string \<Rightarrow> nat list" where
  "upper s = concat (map upper_char s)"

text \<open>\<^verbatim>\<open>s.split(sep)\<close> for a separator of one character: never an empty list.\<close>

fun split :: "char \<Rightarrow> string \<Rightarrow> string list" where
  "split sep [] = [[]]"
| "split sep (c # cs) =
     (if c = sep then [] # split sep cs
      else (case split sep cs of [] \<Rightarrow> [[c]] | w # ws \<Rightarrow> (c # w) # ws))"

subsection \<open>Errors, messages and the state\<close>

text \<open>
  A step can raise in two ways: an index into an empty list, and whatever the call to
  the language model raises, which is kept with the text that identifies it.
  \<open>KeyError\<close> is the router naming a branch that the graph does not have.
\<close>

datatype error = IndexError | KeyError | ServiceError string

datatype message = AIMessage string | HumanMessage string

fun content :: "message \<Rightarrow> string" where
  "content (AIMessage t) = t"
| "content (HumanMessage t) = t"

record BlogState =
  topic :: string
  title :: string
  blog_content :: "message list"
  reviewed_content :: "message list"
  is_blog_ready :: string

text \<open>\<^verbatim>\<open>xs[0]\<close> and \<^verbatim>\<open>xs[-1]\<close> raise on an empty list.\<close>

definition first_item :: "'a list \<Rightarrow> error + 'a" where
  "first_item xs = (case xs of [] \<Rightarrow> Inl IndexError | x # _ \<Rightarrow> Inr x)"

definition last_item :: "'a list \<Rightarrow> error + 'a" where
  "last_item xs = (if xs = [] then Inl IndexError else Inr (last xs))"

text \<open>
  One call \<^verbatim>\<open>llm.invoke(prompt)\<close> returns the text of the response or raises. The
  language model may answer the same prompt differently each time, so a run is given
  one such function for each call, numbered from 0.
\<close>

datatype reply = Response string | Raised string

type_synonym service = "string \<Rightarrow> reply"

type_synonym llm = "nat \<Rightarrow> service"

subsection \<open>The step functions\<close>

definition generate_title_prompt :: "BlogState \<Rightarrow> string" where
  "generate_title_prompt state =
     ''Generate compelling blog title options about '' @ topic state @ '' that are:'' @ nl @
     ''    - SEO-friendly'' @ nl @
     ''    - Attention-grabbing'' @ nl @
     ''    - Between 6-12 words''"

definition generate_title :: "service \<Rightarrow> BlogState \<Rightarrow> error + BlogState" where
  "generate_title invoke state =
     (case invoke (generate_title_prompt state) of
        Raised x \<Rightarrow> Inl (ServiceError x)
      | Response response \<Rightarrow>
          (case first_item (split (CHR 0x0A) response) of
             Inl e \<Rightarrow> Inl e
           | Inr line \<Rightarrow> Inr (state\<lparr>title := strip_chars dq line\<rparr>)))"

definition generate_content_prompt :: "BlogState \<Rightarrow> string" where
  "generate_content_prompt state =
     ''Write a comprehensive blog post titled '' @ dq @ title state @ dq @ '' with:'' @ nl @
     ''    1. Engaging introduction with hook'' @ nl @
     ''    2. 3-5 subheadings with detailed content'' @ nl @
     ''    3. Practical examples/statistics'' @ nl @
     ''    4. Clear transitions between sections'' @ nl @
     ''    5. Actionable conclusion'' @ nl @
     ''    Style: Professional yet conversational (Flesch-Kincaid 60-70). Use markdown formatting''"

definition generate_content :: "service \<Rightarrow> BlogState \<Rightarrow> error + BlogState" where
  "generate_content invoke state =
     (case invoke (generate_content_prompt state) of
        Raised x \<Rightarrow> Inl (ServiceError x)
      | Response response \<Rightarrow>
          Inr (state\<lparr>blog_content := blog_content state @ [AIMessage response]\<rparr>))"

definition review_content_prompt :: "string \<Rightarrow> string" where
  "review_content_prompt text =
     ''Critically review this blog content:'' @ nl @
     ''    - Clarity & Structure'' @ nl @
     ''    - Grammar & Style'' @ nl @
     ''    - SEO optimization'' @ nl @
     ''    - Reader engagement'' @ nl @
     ''    Provide specific improvement suggestions. Content:'' @ nl @ text"

definition review_content :: "service \<Rightarrow> BlogState \<Rightarrow> error + BlogState" where
  "review_content invoke state =
     (case last_item (blog_content state) of
        Inl e \<Rightarrow> Inl e
      | Inr draft \<Rightarrow>
          (case invoke (review_content_prompt (content draft)) of
             Raised x \<Rightarrow> Inl (ServiceError x)
           | Response feedback \<Rightarrow>
               Inr (state\<lparr>reviewed_content :=
                      reviewed_content state @ [HumanMessage feedback]\<rparr>)))"

definition evaluate_content_prompt :: "string \<Rightarrow> string \<Rightarrow> string" where
  "evaluate_content_prompt text feedback =
     ''Evaluate blog content against editorial feedback (Pass/Fail):'' @ nl @
     ''    Content: '' @ text @ nl @
     ''    Feedback: '' @ feedback @ nl @
     ''    Answer only Pass or Fail:''"

definition evaluate_content :: "service \<Rightarrow> BlogState \<Rightarrow> error + BlogState" where
  "evaluate_content invoke state =
     (case last_item (blog_content state) of
        Inl e \<Rightarrow> Inl e
      | Inr draft \<Rightarrow>
          (case last_item (reviewed_content state) of
             Inl e \<Rightarrow> Inl e
           | Inr feedback \<Rightarrow>
               (case invoke (evaluate_content_prompt (content draft) (content feedback)) of
                  Raised x \<Rightarrow> Inl (ServiceError x)
                | Response response \<Rightarrow>
                    (let verdict = upper (strip response)
                     in Inr (state\<lparr>is_blog_ready :=
                                    (if sublist (codepoints ''PASS'') verdict
                                     then ''Pass'' else ''Fail''),
                                  reviewed_content :=
                                    reviewed_content state @
                                    [AIMessage (''Verdict: '' @ response)]\<rparr>)))))"

definition route_based_on_verdict :: "BlogState \<Rightarrow> string" where
  "route_based_on_verdict state = (if is_blog_ready state = ''Pass'' then ''Pass'' else ''Fail'')"

subsection \<open>The graph of \<^verbatim>\<open>init_graph\<close> and its execution\<close>

datatype node =
  START | title_generator | content_generator | content_reviewer | quality_check | END

text \<open>The four \<^verbatim>\<open>add_node\<close> calls: \<open>START\<close> and \<open>END\<close> carry no function.\<close>

definition nodes :: "(node \<times> (service \<Rightarrow> BlogState \<Rightarrow> error + BlogState)) list" where
  "nodes =
     [(title_generator, generate_title),
      (content_generator, generate_content),
      (content_reviewer, review_content),
      (quality_check, evaluate_content)]"

text \<open>The four \<^verbatim>\<open>add_edge\<close> calls.\<close>

definition edges :: "(node \<times> node) list" where
  "edges =
     [(START, title_generator),
      (title_generator, content_generator),
      (content_generator, content_reviewer),
      (content_reviewer, quality_check)]"

text \<open>The \<^verbatim>\<open>add_conditional_edges\<close> call: the source node, the router and the branches.\<close>

definition conditional_source :: node where
  "conditional_source = quality_check"

definition conditional_edges :: "(string \<times> node) list" where
  "conditional_edges = [(''Pass'', END), (''Fail'', content_generator)]"

definition follow_edge :: "node \<Rightarrow> BlogState \<Rightarrow> error + node" where
  "follow_edge nd state =
     (case map_of edges nd of
        Some nd' \<Rightarrow> Inr nd'
      | None \<Rightarrow>
          (if nd = conditional_source
           then (case map_of conditional_edges (route_based_on_verdict state) of
                   Some nd' \<Rightarrow> Inr nd'
                 | None \<Rightarrow> Inl KeyError)
           else Inl KeyError))"

text \<open>
  A configuration of a run: the node to execute next, the number of calls to the language
  model made so far, and the state. One step of the engine executes the node's function
  on the state and follows the outgoing edge. A step that raises ends the run: no step
  function assigns to the state before its call to the language model, so the state at
  the raise is the state the step was entered with.
\<close>

type_synonym config = "node \<times> nat \<times> BlogState"

datatype progress = Next config | Done BlogState | Abort error BlogState

definition step :: "llm \<Rightarrow> config \<Rightarrow> progress" where
  "step llm c =
     (case c of (nd, k, state) \<Rightarrow>
        if nd = END then Done state
        else
          (case (case map_of nodes nd of
                   None \<Rightarrow> Inr (k, state)
                 | Some f \<Rightarrow>
                     (case f (llm k) state of
                        Inl e \<Rightarrow> Inl e
                      | Inr state' \<Rightarrow> Inr (Suc k, state'))) of
             Inl e \<Rightarrow> Abort e state
           | Inr (k', state') \<Rightarrow>
               (case follow_edge nd state' of
                  Inl e \<Rightarrow> Abort e state'
                | Inr nd' \<Rightarrow> Next (nd', k', state'))))"

text \<open>The configuration after \<open>n\<close> steps, if the run gets that far.\<close>

fun steps :: "llm \<Rightarrow> nat \<Rightarrow> config \<Rightarrow> config option" where
  "steps llm 0 c = Some c"
| "steps llm (Suc n) c =
     (case steps llm n c of
        None \<Rightarrow> None
      | Some c' \<Rightarrow> (case step llm c' of Next c'' \<Rightarrow> Some c'' | _ \<Rightarrow> None))"

text \<open>
  The result of a run: the final state when \<open>END\<close> is reached, or the error that was
  raised with the state at that moment. The loop of the graph has no bound, so the run
  is given a number of steps it may take; \<open>None\<close> says that this number did not suffice.
\<close>

datatype outcome = Completed BlogState | Aborted error BlogState

fun exec :: "llm \<Rightarrow> nat \<Rightarrow> config \<Rightarrow> outcome option" where
  "exec llm 0 c = None"
| "exec llm (Suc n) c =
     (case step llm c of
        Next c' \<Rightarrow> exec llm n c'
      | Done state \<Rightarrow> Some (Completed state)
      | Abort e state \<Rightarrow> Some (Aborted e state))"

text \<open>The state the script builds for a topic, and \<^verbatim>\<open>graph.invoke\<close> on it.\<close>

definition initial_state :: "string \<Rightarrow> BlogState" where
  "initial_state t =
     \<lparr>topic = t, title = [], blog_content = [], reviewed_content = [], is_blog_ready = []\<rparr>"

definition initial_config :: "string \<Rightarrow> config" where
  "initial_config t = (START, 0, initial_state t)"

definition invoke_graph :: "llm \<Rightarrow> nat \<Rightarrow> string \<Rightarrow> outcome option" where
  "invoke_graph llm fuel t = exec llm fuel (initial_config t)"

definition reachable :: "llm \<Rightarrow> string \<Rightarrow> config \<Rightarrow> bool" where
  "reachable llm t c = (\<exists>n. steps llm n (initial_config t) = Some c)"

text \<open>What the script shows of a completed run: the last draft and the last review entry.\<close>

definition final_report :: "BlogState \<Rightarrow> error + string \<times> string" where
  "final_report final_state =
     (case last_item (blog_content final_state) of
        Inl e \<Rightarrow> Inl e
      | Inr draft \<Rightarrow>
          (case last_item (reviewed_content final_state) of
             Inl e \<Rightarrow> Inl e
           | Inr report \<Rightarrow> Inr (content draft, content report)))"



subsection \<open>Example runs\<close>

text \<open>
  A language model that answers the seven calls of a run with one failed and one passed
  evaluation, and raises afterwards; and states of that run: before and after the last
  evaluation, after the title step, at the retry and after the second draft.
\<close>

definition demo_llm :: llm where
  "demo_llm k p =
     (if k = 0 then Response ''Title One''
      else if k = 1 then Response ''Draft body''
      else if k = 2 then Response ''needs work''
      else if k = 3 then Response ''FAIL''
      else if k = 4 then Response ''Revised body''
      else if k = 5 then Response ''looks good''
      else if k = 6 then Response ''PASS''
      else Raised ''service unavailable'')"

definition demo_reviewed :: BlogState where
  "demo_reviewed =
     \<lparr>topic = ''Testing'', title = ''Title One'',
      blog_content = [AIMessage ''Draft body'', AIMessage ''Revised body''],
      reviewed_content =
        [HumanMessage ''needs work'', AIMessage ''Verdict: FAIL'',
         HumanMessage ''looks good''],
      is_blog_ready = ''Fail''\<rparr>"

definition demo_final :: BlogState where
  "demo_final =
     \<lparr>topic = ''Testing'', title = ''Title One'',
      blog_content = [AIMessage ''Draft body'', AIMessage ''Revised body''],
      reviewed_content =
        [HumanMessage ''needs work'', AIMessage ''Verdict: FAIL'',
         HumanMessage ''looks good'', AIMessage ''Verdict: PASS''],
      is_blog_ready = ''Pass''\<rparr>"

definition demo_titled :: BlogState where
  "demo_titled =
     \<lparr>topic = ''Testing'', title = ''Title One'', blog_content = [],
      reviewed_content = [], is_blog_ready = []\<rparr>"

definition demo_retry :: BlogState where
  "demo_retry =
     \<lparr>topic = ''Testing'', title = ''Title One'',
      blog_content = [AIMessage ''Draft body''],
      reviewed_content = [HumanMessage ''needs work'', AIMessage ''Verdict: FAIL''],
      is_blog_ready = ''Fail''\<rparr>"

definition demo_drafted :: BlogState where
  "demo_drafted =
     \<lparr>topic = ''Testing'', title = ''Title One'',
      blog_content = [AIMessage ''Draft body'', AIMessage ''Revised body''],
      reviewed_content = [HumanMessage ''needs work'', AIMessage ''Verdict: FAIL''],
      is_blog_ready = ''Fail''\<rparr>"

text \<open>
  A language model that answers the first call and raises from the second call on, one
  that raises from the sixth call on, a call that answers with the empty text, and a
  call that answers with the German word for fun, whose last letter is the sharp s.
\<close>

definition outage_llm :: llm where
  "outage_llm k p =
     (if k = 0 then Response (dq @ ''Title One'' @ dq) else Raised ''connection refused'')"


definition empty_service :: service where
  "empty_service p = Response []"




section \<open>Properties\<close>

subsection \<open>The engine, step by step\<close>

lemma split_not_Nil: "split sep s \<noteq> []"
  by (induction s) (auto split: list.splits)

lemma first_item_split: "\<exists>line. first_item (split sep s) = Inr line"
  using split_not_Nil [of sep s] by (cases "split sep s") (auto simp: first_item_def)

lemma step_START: "step llm (START, k, s) = Next (title_generator, k, s)"
  by (simp add: step_def nodes_def follow_edge_def edges_def)

lemma step_title_generator:
  "step llm (title_generator, k, s) =
     (case generate_title (llm k) s of
        Inl e \<Rightarrow> Abort e s
      | Inr s' \<Rightarrow> Next (content_generator, Suc k, s'))"
  by (simp add: step_def nodes_def follow_edge_def edges_def split: sum.splits)

lemma step_content_generator:
  "step llm (content_generator, k, s) =
     (case generate_content (llm k) s of
        Inl e \<Rightarrow> Abort e s
      | Inr s' \<Rightarrow> Next (content_reviewer, Suc k, s'))"
  by (simp add: step_def nodes_def follow_edge_def edges_def split: sum.splits)

lemma step_content_reviewer:
  "step llm (content_reviewer, k, s) =
     (case review_content (llm k) s of
        Inl e \<Rightarrow> Abort e s
      | Inr s' \<Rightarrow> Next (quality_check, Suc k, s'))"
  by (simp add: step_def nodes_def follow_edge_def edges_def split: sum.splits)

lemma step_quality_check:
  "step llm (quality_check, k, s) =
     (case evaluate_content (llm k) s of
        Inl e \<Rightarrow> Abort e s
      | Inr s' \<Rightarrow>
          Next (if is_blog_ready s' = ''Pass'' then END else content_generator, Suc k, s'))"
  by (simp add: step_def nodes_def follow_edge_def edges_def conditional_source_def
      conditional_edges_def route_based_on_verdict_def split: sum.splits)

lemma step_END: "step llm (END, k, s) = Done s"
  by (simp add: step_def)

lemmas step_node =
  step_START step_title_generator step_content_generator step_content_reviewer
  step_quality_check step_END

lemma step_Next_cases:
  assumes "step llm (nd, k, s) = Next (nd', k', s')"
  shows "(nd = START \<and> nd' = title_generator \<and> k' = k \<and> s' = s)
       \<or> (nd = title_generator \<and> nd' = content_generator \<and> k' = Suc k
           \<and> generate_title (llm k) s = Inr s')
       \<or> (nd = content_generator \<and> nd' = content_reviewer \<and> k' = Suc k
           \<and> generate_content (llm k) s = Inr s')
       \<or> (nd = content_reviewer \<and> nd' = quality_check \<and> k' = Suc k
           \<and> review_content (llm k) s = Inr s')
       \<or> (nd = quality_check \<and> k' = Suc k \<and> evaluate_content (llm k) s = Inr s'
           \<and> nd' = (if is_blog_ready s' = ''Pass'' then END else content_generator))"
  using assms by (cases nd) (auto simp: step_node split: sum.splits)

lemma steps_front:
  "steps llm (Suc n) c = (case step llm c of Next c' \<Rightarrow> steps llm n c' | _ \<Rightarrow> None)"
proof (induction n)
  case 0
  then show ?case by (simp split: progress.splits)
next
  case (Suc n)
  have "steps llm (Suc (Suc n)) c =
      (case steps llm (Suc n) c of None \<Rightarrow> None
       | Some c' \<Rightarrow> (case step llm c' of Next c'' \<Rightarrow> Some c'' | _ \<Rightarrow> None))"
    by simp
  also have "\<dots> = (case step llm c of Next c' \<Rightarrow> steps llm (Suc n) c' | _ \<Rightarrow> None)"
    unfolding Suc.IH by (simp split: progress.splits)
  finally show ?case .
qed


lemma exec_Completed_steps:
  "exec llm n c = Some (Completed s) \<Longrightarrow> \<exists>m k. m < n \<and> steps llm m c = Some (END, k, s)"
proof (induction n arbitrary: c)
  case 0
  then show ?case by simp
next
  case (Suc n)
  show ?case
  proof (cases "step llm c")
    case (Next c1)
    with Suc.prems have "exec llm n c1 = Some (Completed s)" by simp
    from Suc.IH [OF this] obtain m k where "m < n" "steps llm m c1 = Some (END, k, s)" by blast
    with Next have "Suc m < Suc n" "steps llm (Suc m) c = Some (END, k, s)"
      unfolding steps_front by simp_all
    then show ?thesis by blast
  next
    case (Done s1)
    with Suc.prems have s1: "s1 = s" by simp
    obtain nd k s0 where c: "c = (nd, k, s0)" by (cases c)
    from Done c have "nd = END \<and> s0 = s1"
      by (cases nd) (auto simp: step_node split: sum.splits)
    with c s1 have "steps llm 0 c = Some (END, k, s)" by simp
    then show ?thesis by blast
  next
    case (Abort e s1)
    with Suc.prems show ?thesis by simp
  qed
qed

lemma exec_Aborted_steps:
  "exec llm n c = Some (Aborted e s) \<Longrightarrow>
     \<exists>m c'. m < n \<and> steps llm m c = Some c' \<and> step llm c' = Abort e s"
proof (induction n arbitrary: c)
  case 0
  then show ?case by simp
next
  case (Suc n)
  show ?case
  proof (cases "step llm c")
    case (Next c1)
    with Suc.prems have "exec llm n c1 = Some (Aborted e s)" by simp
    from Suc.IH [OF this] obtain m c' where "m < n" "steps llm m c1 = Some c'" "step llm c' = Abort e s" by blast
    with Next have "Suc m < Suc n" "steps llm (Suc m) c = Some c'"
      unfolding steps_front by simp_all
    with \<open>step llm c' = Abort e s\<close> show ?thesis by blast
  next
    case (Done s1)
    with Suc.prems show ?thesis by simp
  next
    case (Abort e1 s1)
    with Suc.prems have "step llm c = Abort e s" by simp
    moreover have "steps llm 0 c = Some c" by simp
    ultimately show ?thesis by blast
  qed
qed

subsection \<open>What each step function returns, and the shape of every reachable configuration\<close>

lemma generate_title_Inr:
  assumes "generate_title invoke s = Inr s'"
  shows "\<exists>r line. invoke (generate_title_prompt s) = Response r
           \<and> first_item (split (CHR 0x0A) r) = Inr line
           \<and> s' = s\<lparr>title := strip_chars dq line\<rparr>"
  using assms by (auto simp: generate_title_def split: sum.splits reply.splits)

lemma generate_content_Inr:
  assumes "generate_content invoke s = Inr s'"
  shows "\<exists>r. invoke (generate_content_prompt s) = Response r
           \<and> s' = s\<lparr>blog_content := blog_content s @ [AIMessage r]\<rparr>"
  using assms by (auto simp: generate_content_def split: reply.splits)

lemma review_content_Inr:
  assumes "review_content invoke s = Inr s'"
  shows "blog_content s \<noteq> []
       \<and> (\<exists>r. invoke (review_content_prompt (content (last (blog_content s)))) = Response r
              \<and> s' = s\<lparr>reviewed_content := reviewed_content s @ [HumanMessage r]\<rparr>)"
  using assms by (auto simp: review_content_def last_item_def split: reply.splits if_splits)

lemma evaluate_content_Inr:
  assumes "evaluate_content invoke s = Inr s'"
  shows "blog_content s \<noteq> [] \<and> reviewed_content s \<noteq> []
       \<and> (\<exists>r. invoke (evaluate_content_prompt (content (last (blog_content s)))
                        (content (last (reviewed_content s)))) = Response r
              \<and> s' = s\<lparr>is_blog_ready :=
                          (if sublist (codepoints ''PASS'') (upper (strip r))
                           then ''Pass'' else ''Fail''),
                        reviewed_content :=
                          reviewed_content s @ [AIMessage (''Verdict: '' @ r)]\<rparr>)"
  using assms
  by (auto simp: evaluate_content_def last_item_def Let_def split: reply.splits if_splits)

lemma steps_SucE:
  assumes "steps llm (Suc n) c0 = Some c"
  shows "\<exists>nd k s. steps llm n c0 = Some (nd, k, s) \<and> step llm (nd, k, s) = Next c"
  using assms by (auto split: option.splits progress.splits)

lemma steps_shape:
  assumes "steps llm n (initial_config t) = Some (nd, k, s)"
  shows "topic s = t
       \<and> (nd = START \<longrightarrow> n = 0 \<and> k = 0 \<and> s = initial_state t)
       \<and> (nd = title_generator \<longrightarrow> n = 1 \<and> k = 0 \<and> s = initial_state t)
       \<and> (nd = content_generator \<longrightarrow>
            (\<exists>N. n = 3 * N + 2 \<and> k = 3 * N + 1
               \<and> length (blog_content s) = N \<and> length (reviewed_content s) = 2 * N))
       \<and> (nd = content_reviewer \<longrightarrow>
            (\<exists>N. n = 3 * N + 3 \<and> k = 3 * N + 2
               \<and> length (blog_content s) = N + 1 \<and> length (reviewed_content s) = 2 * N))
       \<and> (nd = quality_check \<longrightarrow>
            (\<exists>N. n = 3 * N + 4 \<and> k = 3 * N + 3
               \<and> length (blog_content s) = N + 1
               \<and> length (reviewed_content s) = 2 * N + 1
               \<and> (\<exists>c. last (reviewed_content s) = HumanMessage c)))
       \<and> (nd = END \<longrightarrow>
            (\<exists>N. n = 3 * N + 5 \<and> k = 3 * N + 4
               \<and> length (blog_content s) = N + 1
               \<and> length (reviewed_content s) = 2 * N + 2
               \<and> is_blog_ready s = ''Pass''
               \<and> (\<exists>c r. reviewed_content s ! (2 * N) = HumanMessage c
                     \<and> last (reviewed_content s) = AIMessage (''Verdict: '' @ r))))"
  using assms
proof (induction n arbitrary: nd k s)
  case 0
  then show ?case by (auto simp: initial_config_def initial_state_def)
next
  case (Suc n nd' k' s')
  from steps_SucE [OF Suc.prems] obtain nd k s
    where prev: "steps llm n (initial_config t) = Some (nd, k, s)"
      and nx: "step llm (nd, k, s) = Next (nd', k', s')"
    by blast
  note IH = Suc.IH [OF prev]
  from step_Next_cases [OF nx] show ?case
  proof (elim disjE conjE)
    assume "nd = START" "nd' = title_generator" "k' = k" "s' = s"
    with IH show ?thesis by auto
  next
    assume a: "nd = title_generator" "nd' = content_generator" "k' = Suc k"
      "generate_title (llm k) s = Inr s'"
    from generate_title_Inr [OF a(4)] a(1-3) IH show ?thesis
      by (auto simp: initial_state_def)
  next
    assume a: "nd = content_generator" "nd' = content_reviewer" "k' = Suc k"
      "generate_content (llm k) s = Inr s'"
    from generate_content_Inr [OF a(4)] a(1-3) IH show ?thesis
      by auto
  next
    assume a: "nd = content_reviewer" "nd' = quality_check" "k' = Suc k"
      "review_content (llm k) s = Inr s'"
    from review_content_Inr [OF a(4)] a(1-3) IH show ?thesis
      by auto
  next
    assume a: "nd = quality_check" "k' = Suc k" "evaluate_content (llm k) s = Inr s'"
      "nd' = (if is_blog_ready s' = ''Pass'' then END else content_generator)"
    from IH a(1) obtain N c where N: "n = 3 * N + 4" "k = 3 * N + 3"
      "length (blog_content s) = N + 1" "length (reviewed_content s) = 2 * N + 1"
      "last (reviewed_content s) = HumanMessage c" "topic s = t"
      by auto
    from evaluate_content_Inr [OF a(3)] obtain r where
      s': "s' = s\<lparr>is_blog_ready :=
                          (if sublist (codepoints ''PASS'') (upper (strip r))
                           then ''Pass'' else ''Fail''),
                        reviewed_content :=
                          reviewed_content s @ [AIMessage (''Verdict: '' @ r)]\<rparr>"
      and ne: "reviewed_content s \<noteq> []"
      by blast
    from ne N(4,5) have nth: "reviewed_content s ! (2 * N) = HumanMessage c"
      by (simp add: last_conv_nth)
    show ?thesis
    proof (cases "is_blog_ready s' = ''Pass''")
      case True
      with a(4) have nd': "nd' = END" by simp
      have "Suc n = 3 * N + 5" "k' = 3 * N + 4" using N a(2) by simp_all
      moreover have "length (blog_content s') = N + 1" "length (reviewed_content s') = 2 * N + 2"
        "topic s' = t"
        using s' N by simp_all
      moreover have "reviewed_content s' ! (2 * N) = HumanMessage c"
        using s' nth N(4) by (simp add: nth_append)
      moreover have "last (reviewed_content s') = AIMessage (''Verdict: '' @ r)"
        using s' by simp
      ultimately show ?thesis using nd' True by auto
    next
      case False
      with a(4) have nd': "nd' = content_generator" by simp
      have "Suc n = 3 * (N + 1) + 2" "k' = 3 * (N + 1) + 1" using N a(2) by simp_all
      moreover have "length (blog_content s') = N + 1"
        "length (reviewed_content s') = 2 * (N + 1)" "topic s' = t"
        using s' N by simp_all
      ultimately show ?thesis using nd' by blast
    qed
  qed
qed

subsection \<open>The example run\<close>

lemma demo_run: "invoke_graph demo_llm 9 ''Testing'' = Some (Completed demo_final)"
  by code_simp

lemma demo_last_step: "step demo_llm (quality_check, 6, demo_reviewed) = Next (END, 7, demo_final)"
  by code_simp

lemma demo_steps: "steps demo_llm 8 (initial_config ''Testing'') = Some (END, 7, demo_final)"
  by code_simp

lemma demo_reach_titled: "reachable demo_llm ''Testing'' (content_generator, 1, demo_titled)"
  unfolding reachable_def by (rule exI [of _ 2]) code_simp

lemma demo_reach_retry: "reachable demo_llm ''Testing'' (content_generator, 4, demo_retry)"
  unfolding reachable_def by (rule exI [of _ 5]) code_simp

lemma demo_reach_drafted: "reachable demo_llm ''Testing'' (content_reviewer, 5, demo_drafted)"
  unfolding reachable_def by (rule exI [of _ 6]) code_simp

lemma demo_reach_reviewed: "reachable demo_llm ''Testing'' (quality_check, 6, demo_reviewed)"
  unfolding reachable_def by (rule exI [of _ 7]) code_simp

lemma demo_reach_final: "reachable demo_llm ''Testing'' (END, 7, demo_final)"
  unfolding reachable_def by (rule exI [of _ 8]) code_simp

lemma demo_generate: "generate_content (demo_llm 4) demo_retry = Inr demo_drafted"
  by code_simp

lemma demo_review: "review_content (demo_llm 5) demo_drafted = Inr demo_reviewed"
  by code_simp

lemma demo_evaluate: "evaluate_content (demo_llm 6) demo_reviewed = Inr demo_final"
  by code_simp

lemma demo_title: "generate_title (demo_llm 0) (initial_state ''Testing'') = Inr demo_titled"
  by code_simp

subsection \<open>Leaving the loop\<close>

text \<open>
  C1: a run that completes ends in a state whose verdict is Pass; the only step that
  leads to \<open>END\<close> is the evaluation step with the router answering Pass, and only
  \<open>END\<close> completes a run.
\<close>

theorem run_ends_only_on_pass:
  "(invoke_graph llm fuel t = Some (Completed s) \<longrightarrow> is_blog_ready s = ''Pass'')
   \<and> (step llm (nd, k, s0) = Next (END, k', s') \<longrightarrow>
        nd = quality_check \<and> route_based_on_verdict s' = ''Pass''
        \<and> is_blog_ready s' = ''Pass'')
   \<and> (step llm (nd, k, s0) = Done s' \<longrightarrow> nd = END)"
proof (intro conjI impI)
  assume "invoke_graph llm fuel t = Some (Completed s)"
  then obtain m k where "steps llm m (initial_config t) = Some (END, k, s)"
    unfolding invoke_graph_def using exec_Completed_steps by blast
  from steps_shape [OF this] show "is_blog_ready s = ''Pass''" by auto
next
  assume nx: "step llm (nd, k, s0) = Next (END, k', s')"
  from step_Next_cases [OF nx] show "nd = quality_check"
    by (auto split: if_splits)
  from step_Next_cases [OF nx] show "is_blog_ready s' = ''Pass''"
    by (auto split: if_splits)
  then show "route_based_on_verdict s' = ''Pass''"
    by (simp add: route_based_on_verdict_def)
next
  assume "step llm (nd, k, s0) = Done s'"
  then show "nd = END"
    by (cases nd) (auto simp: step_node split: sum.splits)
qed

theorem run_ends_only_on_pass_witness:
  "invoke_graph demo_llm 9 ''Testing'' = Some (Completed demo_final)
   \<and> is_blog_ready demo_final = ''Pass''
   \<and> step demo_llm (quality_check, 6, demo_reviewed) = Next (END, 7, demo_final)
   \<and> route_based_on_verdict demo_final = ''Pass''
   \<and> step demo_llm (END, 7, demo_final) = Done demo_final"
  using run_ends_only_on_pass [of demo_llm 9 "''Testing''" demo_final quality_check 6
      demo_reviewed 7 demo_final]
    run_ends_only_on_pass [of demo_llm 9 "''Testing''" demo_final END 7 demo_final 7 demo_final]
    demo_run demo_last_step step_END [of demo_llm 7 demo_final]
  by simp

subsection \<open>Histories\<close>

lemma step_function_histories:
  assumes "f \<in> {generate_title, generate_content, review_content, evaluate_content}"
    and "f invoke s = Inr s'"
  shows "prefix (blog_content s) (blog_content s')
       \<and> prefix (reviewed_content s) (reviewed_content s')"
proof -
  from assms(1) consider "f = generate_title" | "f = generate_content"
    | "f = review_content" | "f = evaluate_content" by blast
  then show ?thesis
  proof cases
    case 1
    with assms(2) generate_title_Inr [of invoke s s'] show ?thesis by auto
  next
    case 2
    with assms(2) generate_content_Inr [of invoke s s'] show ?thesis by auto
  next
    case 3
    with assms(2) review_content_Inr [of invoke s s'] show ?thesis by auto
  next
    case 4
    with assms(2) evaluate_content_Inr [of invoke s s'] show ?thesis by auto
  qed
qed

lemma generate_title_no_IndexError: "generate_title invoke s \<noteq> Inl IndexError"
proof (cases "invoke (generate_title_prompt s)")
  case (Response r)
  obtain line where "first_item (split (CHR 0x0A) r) = Inr line"
    using first_item_split by blast
  with Response show ?thesis by (simp add: generate_title_def)
next
  case (Raised x)
  then show ?thesis by (simp add: generate_title_def)
qed

lemma step_histories:
  assumes "step llm (nd, k, s) = Next (nd', k', s')"
  shows "prefix (blog_content s) (blog_content s')
       \<and> prefix (reviewed_content s) (reviewed_content s')"
proof -
  have fn: "f (llm k) s = Inr s' \<Longrightarrow>
      f \<in> {generate_title, generate_content, review_content, evaluate_content} \<Longrightarrow> ?thesis" for f
    using step_function_histories [of f "llm k" s s'] by blast
  from step_Next_cases [OF assms] show ?thesis
  proof (elim disjE conjE)
    assume "s' = s"
    then show ?thesis by simp
  qed (erule fn, simp)+
qed

lemma steps_histories:
  assumes "steps llm n (nd, k, s) = Some (nd', k', s')"
  shows "prefix (blog_content s) (blog_content s')
       \<and> prefix (reviewed_content s) (reviewed_content s')"
  using assms
proof (induction n arbitrary: nd' k' s')
  case 0
  then show ?case by simp
next
  case (Suc n)
  from steps_SucE [OF Suc.prems] obtain nd1 k1 s1
    where prev: "steps llm n (nd, k, s) = Some (nd1, k1, s1)"
      and nx: "step llm (nd1, k1, s1) = Next (nd', k', s')"
    by blast
  from Suc.IH [OF prev] step_histories [OF nx] show ?case
    by (meson prefix_order.order_trans)
qed

text \<open>
  C3: from the initial state, the two steps that lead into the loop and \<open>N\<close> passes
  through its three steps leave \<open>N\<close> drafts and \<open>2 * N\<close> review entries.
\<close>

theorem history_lengths_after_cycles:
  assumes "steps llm (2 + 3 * N) (initial_config t) = Some (nd, k, s)"
  shows "blog_content (initial_state t) = [] \<and> reviewed_content (initial_state t) = []
       \<and> length (blog_content s) = N \<and> length (reviewed_content s) = 2 * N"
proof -
  have "blog_content (initial_state t) = [] \<and> reviewed_content (initial_state t) = []"
    by (simp add: initial_state_def)
  moreover have "length (blog_content s) = N \<and> length (reviewed_content s) = 2 * N"
  proof (cases nd)
    case START
    with steps_shape [OF assms] show ?thesis by simp
  next
    case title_generator
    with steps_shape [OF assms] show ?thesis by simp
  next
    case content_generator
    with steps_shape [OF assms] obtain M where "2 + 3 * N = 3 * M + 2"
      "length (blog_content s) = M" "length (reviewed_content s) = 2 * M" by auto
    then show ?thesis by simp
  next
    case content_reviewer
    with steps_shape [OF assms] obtain M where "2 + 3 * N = 3 * M + 3" by auto
    then show ?thesis by presburger
  next
    case quality_check
    with steps_shape [OF assms] obtain M where "2 + 3 * N = 3 * M + 4" by auto
    then show ?thesis by presburger
  next
    case END
    with steps_shape [OF assms] obtain M where "2 + 3 * N = 3 * M + 5"
      "length (blog_content s) = M + 1" "length (reviewed_content s) = 2 * M + 2" by auto
    then show ?thesis by simp
  qed
  ultimately show ?thesis by simp
qed

theorem history_lengths_after_cycles_witness:
  "steps demo_llm (2 + 3 * 2) (initial_config ''Testing'') = Some (END, 7, demo_final)
   \<and> length (blog_content demo_final) = 2 \<and> length (reviewed_content demo_final) = 2 * 2"
  using history_lengths_after_cycles [of demo_llm 2 "''Testing''" END 7 demo_final] demo_steps
  by simp

lemma steps_no_IndexError:
  assumes run: "steps llm n (initial_config t) = Some (nd, k, s)"
  shows "step llm (nd, k, s) \<noteq> Abort IndexError s'"
proof -
  note shape = steps_shape [OF run]
  have rev: "blog_content s \<noteq> []" if "nd = content_reviewer"
    using shape that by auto
  have qc: "blog_content s \<noteq> [] \<and> reviewed_content s \<noteq> []" if "nd = quality_check"
    using shape that by auto
  show ?thesis
  proof (cases nd)
    case START
    then show ?thesis by (simp add: step_node)
  next
    case title_generator
    then show ?thesis
      using generate_title_no_IndexError [of "llm k" s]
      by (auto simp: step_node split: sum.splits)
  next
    case content_generator
    then show ?thesis
      by (auto simp: step_node generate_content_def split: sum.splits reply.splits)
  next
    case content_reviewer
    then show ?thesis
      using rev
      by (auto simp: step_node review_content_def last_item_def split: sum.splits reply.splits)
  next
    case quality_check
    then show ?thesis
      using qc
      by (auto simp: step_node evaluate_content_def last_item_def Let_def
          split: sum.splits reply.splits)
  next
    case END
    then show ?thesis by (simp add: step_node)
  qed
qed

text \<open>
  C6: in every configuration that a run reaches, the review step finds a draft, the
  evaluation step finds a draft and a review, the state that the router is given after
  the evaluation has both, and no step raises for an index into an empty list; so no
  run ends with that error.
\<close>

theorem last_reads_never_empty:
  assumes "reachable llm t (nd, k, s)"
  shows "(nd = content_reviewer \<longrightarrow>
            last_item (blog_content s) = Inr (last (blog_content s)))
       \<and> (nd = quality_check \<longrightarrow>
            last_item (blog_content s) = Inr (last (blog_content s))
          \<and> last_item (reviewed_content s) = Inr (last (reviewed_content s))
          \<and> (\<forall>s'. evaluate_content (llm k) s = Inr s' \<longrightarrow>
                blog_content s' \<noteq> [] \<and> reviewed_content s' \<noteq> []))
       \<and> (\<forall>s'. step llm (nd, k, s) \<noteq> Abort IndexError s')
       \<and> (\<forall>fuel s'. invoke_graph llm fuel t \<noteq> Some (Aborted IndexError s'))"
proof -
  have no_index_run: "invoke_graph llm fuel t \<noteq> Some (Aborted IndexError s')" for fuel s'
  proof
    assume "invoke_graph llm fuel t = Some (Aborted IndexError s')"
    then obtain m c where "steps llm m (initial_config t) = Some c"
      and "step llm c = Abort IndexError s'"
      unfolding invoke_graph_def using exec_Aborted_steps by blast
    moreover obtain nd1 k1 s1 where "c = (nd1, k1, s1)" by (cases c)
    ultimately have run1: "steps llm m (initial_config t) = Some (nd1, k1, s1)"
      and ab: "step llm (nd1, k1, s1) = Abort IndexError s'"
      by simp_all
    from ab show False
      using steps_no_IndexError [OF run1] by blast
  qed
  from assms obtain n where run: "steps llm n (initial_config t) = Some (nd, k, s)"
    unfolding reachable_def by blast
  note shape = steps_shape [OF run]
  have rev: "blog_content s \<noteq> []" if "nd = content_reviewer"
    using shape that by auto
  have qc: "blog_content s \<noteq> [] \<and> reviewed_content s \<noteq> []" if "nd = quality_check"
    using shape that by auto
  have after: "blog_content s' \<noteq> [] \<and> reviewed_content s' \<noteq> []"
    if "evaluate_content (llm k) s = Inr s'" for s'
    using evaluate_content_Inr [OF that] by auto
  have no_index: "step llm (nd, k, s) \<noteq> Abort IndexError s'" for s'
    using steps_no_IndexError [OF run] by blast
  from rev qc after no_index no_index_run show ?thesis
    by (simp add: last_item_def)
qed

theorem last_reads_never_empty_witness:
  "reachable demo_llm ''Testing'' (content_reviewer, 5, demo_drafted)
   \<and> last_item (blog_content demo_drafted) = Inr (AIMessage ''Revised body'')
   \<and> reachable demo_llm ''Testing'' (quality_check, 6, demo_reviewed)
   \<and> last_item (blog_content demo_reviewed) = Inr (AIMessage ''Revised body'')
   \<and> last_item (reviewed_content demo_reviewed) = Inr (HumanMessage ''looks good'')
   \<and> evaluate_content (demo_llm 6) demo_reviewed = Inr demo_final
   \<and> blog_content demo_final \<noteq> [] \<and> reviewed_content demo_final \<noteq> []
   \<and> step demo_llm (quality_check, 6, demo_reviewed) \<noteq> Abort IndexError demo_reviewed"
  using last_reads_never_empty [OF demo_reach_drafted]
    last_reads_never_empty [OF demo_reach_reviewed] demo_reach_drafted demo_reach_reviewed
    demo_evaluate
  by (simp add: demo_drafted_def demo_reviewed_def)

text \<open>
  C7: a step function that returns only extends the two histories: the histories of the
  state it was given are prefixes of the histories of the state it returns, and so it is
  along every number of steps of a run, through all passes of the loop.
\<close>

theorem histories_only_grow:
  "(f \<in> {generate_title, generate_content, review_content, evaluate_content}
      \<and> f invoke s = Inr s' \<longrightarrow>
        prefix (blog_content s) (blog_content s')
      \<and> prefix (reviewed_content s) (reviewed_content s'))
   \<and> (steps llm n (nd, k, s0) = Some (nd1, k1, s1) \<longrightarrow>
        prefix (blog_content s0) (blog_content s1)
      \<and> prefix (reviewed_content s0) (reviewed_content s1))"
  using step_function_histories [of f invoke s s'] steps_histories [of llm n nd k s0 nd1 k1 s1]
  by blast

theorem histories_only_grow_witness:
  "generate_title (demo_llm 0) (initial_state ''Testing'') = Inr demo_titled
   \<and> prefix (blog_content (initial_state ''Testing'')) (blog_content demo_titled)
   \<and> prefix (reviewed_content (initial_state ''Testing'')) (reviewed_content demo_titled)
   \<and> generate_content (demo_llm 4) demo_retry = Inr demo_drafted
   \<and> prefix (blog_content demo_retry) (blog_content demo_drafted)
   \<and> prefix (reviewed_content demo_retry) (reviewed_content demo_drafted)
   \<and> review_content (demo_llm 5) demo_drafted = Inr demo_reviewed
   \<and> prefix (blog_content demo_drafted) (blog_content demo_reviewed)
   \<and> prefix (reviewed_content demo_drafted) (reviewed_content demo_reviewed)
   \<and> evaluate_content (demo_llm 6) demo_reviewed = Inr demo_final
   \<and> prefix (blog_content demo_reviewed) (blog_content demo_final)
   \<and> prefix (reviewed_content demo_reviewed) (reviewed_content demo_final)
   \<and> steps demo_llm 8 (START, 0, initial_state ''Testing'') = Some (END, 7, demo_final)
   \<and> prefix (blog_content (initial_state ''Testing'')) (blog_content demo_final)
   \<and> prefix (reviewed_content (initial_state ''Testing'')) (reviewed_content demo_final)"
  using histories_only_grow [of generate_title "demo_llm 0" "initial_state ''Testing''"
      demo_titled demo_llm 8 START 0 "initial_state ''Testing''" END 7 demo_final]
    histories_only_grow [of generate_content "demo_llm 4" demo_retry demo_drafted]
    histories_only_grow [of review_content "demo_llm 5" demo_drafted demo_reviewed]
    histories_only_grow [of evaluate_content "demo_llm 6" demo_reviewed demo_final]
    demo_title demo_generate demo_review demo_evaluate demo_steps
  by (simp add: initial_config_def)

subsection \<open>Topic and title\<close>

lemma step_function_topic:
  assumes "f \<in> {generate_title, generate_content, review_content, evaluate_content}"
    and "f invoke s = Inr s'"
  shows "topic s' = topic s"
proof -
  from assms(1) consider "f = generate_title" | "f = generate_content"
    | "f = review_content" | "f = evaluate_content" by blast
  then show ?thesis
  proof cases
    case 1
    with assms(2) generate_title_Inr [of invoke s s'] show ?thesis by auto
  next
    case 2
    with assms(2) generate_content_Inr [of invoke s s'] show ?thesis by auto
  next
    case 3
    with assms(2) review_content_Inr [of invoke s s'] show ?thesis by auto
  next
    case 4
    with assms(2) evaluate_content_Inr [of invoke s s'] show ?thesis by auto
  qed
qed

lemma step_function_title:
  assumes "f \<in> {generate_content, review_content, evaluate_content}"
    and "f invoke s = Inr s'"
  shows "title s' = title s"
proof -
  from assms(1) consider "f = generate_content"
    | "f = review_content" | "f = evaluate_content" by blast
  then show ?thesis
  proof cases
    case 1
    with assms(2) generate_content_Inr [of invoke s s'] show ?thesis by auto
  next
    case 2
    with assms(2) review_content_Inr [of invoke s s'] show ?thesis by auto
  next
    case 3
    with assms(2) evaluate_content_Inr [of invoke s s'] show ?thesis by auto
  qed
qed

lemma steps_title:
  assumes "steps llm n (initial_config t) = Some (nd, k, s)"
  shows "if nd \<in> {START, title_generator} then title s = []
         else (\<exists>r line. llm 0 (generate_title_prompt (initial_state t)) = Response r
                 \<and> first_item (split (CHR 0x0A) r) = Inr line
                 \<and> title s = strip_chars dq line)"
  using assms
proof (induction n arbitrary: nd k s)
  case 0
  then show ?case by (auto simp: initial_config_def initial_state_def)
next
  case (Suc n nd' k' s')
  from steps_SucE [OF Suc.prems] obtain nd k s
    where prev: "steps llm n (initial_config t) = Some (nd, k, s)"
      and nx: "step llm (nd, k, s) = Next (nd', k', s')"
    by blast
  note IH = Suc.IH [OF prev]
  note shape = steps_shape [OF prev]
  from step_Next_cases [OF nx] show ?case
  proof (elim disjE conjE)
    assume "nd = START" "nd' = title_generator" "k' = k" "s' = s"
    with IH show ?thesis by simp
  next
    assume a: "nd = title_generator" "nd' = content_generator" "k' = Suc k"
      "generate_title (llm k) s = Inr s'"
    from shape a(1) have "k = 0" "s = initial_state t" by simp_all
    with generate_title_Inr [OF a(4)] a(2) show ?thesis by auto
  next
    assume a: "nd = content_generator" "nd' = content_reviewer" "k' = Suc k"
      "generate_content (llm k) s = Inr s'"
    from a(4) have "title s' = title s"
      by (rule step_function_title [rotated]) simp
    with IH a(1,2) show ?thesis by simp
  next
    assume a: "nd = content_reviewer" "nd' = quality_check" "k' = Suc k"
      "review_content (llm k) s = Inr s'"
    from a(4) have "title s' = title s"
      by (rule step_function_title [rotated]) simp
    with IH a(1,2) show ?thesis by simp
  next
    assume a: "nd = quality_check" "k' = Suc k" "evaluate_content (llm k) s = Inr s'"
      "nd' = (if is_blog_ready s' = ''Pass'' then END else content_generator)"
    from a(3) have "title s' = title s"
      by (rule step_function_title [rotated]) simp
    with IH a(1,4) show ?thesis by simp
  qed
qed

text \<open>
  C9: every step function returns the topic it was given; the content, review and
  evaluation steps return the title they were given. In a run the topic is the one the
  run was started with, the title is empty up to the title step and from then on it is
  the title taken from the response to the first call, and the title step is entered
  from \<open>START\<close> only, so it runs once.
\<close>

theorem topic_and_title_frame:
  "(f \<in> {generate_title, generate_content, review_content, evaluate_content}
      \<and> f invoke s = Inr s' \<longrightarrow> topic s' = topic s)
   \<and> (g \<in> {generate_content, review_content, evaluate_content}
      \<and> g invoke s = Inr s'' \<longrightarrow> title s'' = title s)
   \<and> title (initial_state t) = [] \<and> topic (initial_state t) = t
   \<and> (reachable llm t (nd, k, s1) \<longrightarrow>
        topic s1 = t
      \<and> (if nd \<in> {START, title_generator} then title s1 = []
          else (\<exists>r line. llm 0 (generate_title_prompt (initial_state t)) = Response r
                  \<and> first_item (split (CHR 0x0A) r) = Inr line
                  \<and> title s1 = strip_chars dq line)))
   \<and> (step llm (nd0, k0, s0) = Next (title_generator, k2, s2) \<longrightarrow> nd0 = START)"
proof (intro conjI impI)
  assume "f \<in> {generate_title, generate_content, review_content, evaluate_content}
      \<and> f invoke s = Inr s'"
  then show "topic s' = topic s" using step_function_topic by blast
next
  assume "g \<in> {generate_content, review_content, evaluate_content} \<and> g invoke s = Inr s''"
  then show "title s'' = title s" using step_function_title by blast
next
  show "title (initial_state t) = []" "topic (initial_state t) = t"
    by (simp_all add: initial_state_def)
next
  assume "reachable llm t (nd, k, s1)"
  then obtain n where run: "steps llm n (initial_config t) = Some (nd, k, s1)"
    unfolding reachable_def by blast
  from steps_shape [OF run] show "topic s1 = t" by simp
  from steps_title [OF run]
  show "if nd \<in> {START, title_generator} then title s1 = []
          else (\<exists>r line. llm 0 (generate_title_prompt (initial_state t)) = Response r
                  \<and> first_item (split (CHR 0x0A) r) = Inr line
                  \<and> title s1 = strip_chars dq line)" .
next
  assume nx: "step llm (nd0, k0, s0) = Next (title_generator, k2, s2)"
  from step_Next_cases [OF nx] show "nd0 = START"
    by (auto split: if_splits)
qed

theorem topic_and_title_frame_witness:
  "generate_title (demo_llm 0) (initial_state ''Testing'') = Inr demo_titled
   \<and> topic demo_titled = topic (initial_state ''Testing'')
   \<and> generate_content (demo_llm 4) demo_retry = Inr demo_drafted
   \<and> topic demo_drafted = topic demo_retry \<and> title demo_drafted = title demo_retry
   \<and> review_content (demo_llm 5) demo_drafted = Inr demo_reviewed
   \<and> topic demo_reviewed = topic demo_drafted \<and> title demo_reviewed = title demo_drafted
   \<and> evaluate_content (demo_llm 6) demo_reviewed = Inr demo_final
   \<and> topic demo_final = topic demo_reviewed \<and> title demo_final = title demo_reviewed
   \<and> reachable demo_llm ''Testing'' (quality_check, 6, demo_reviewed)
   \<and> topic demo_reviewed = ''Testing''
   \<and> (\<exists>r line. demo_llm 0 (generate_title_prompt (initial_state ''Testing'')) = Response r
          \<and> first_item (split (CHR 0x0A) r) = Inr line
          \<and> title demo_reviewed = strip_chars dq line)
   \<and> step demo_llm (START, 0, initial_state ''Testing'')
       = Next (title_generator, 0, initial_state ''Testing'')"
  using topic_and_title_frame [of generate_title "demo_llm 0" "initial_state ''Testing''"
      demo_titled generate_content demo_titled "''Testing''" demo_llm quality_check 6
      demo_reviewed START 0 "initial_state ''Testing''" 0 "initial_state ''Testing''"]
    topic_and_title_frame [of generate_content "demo_llm 4" demo_retry demo_drafted
      generate_content demo_drafted]
    topic_and_title_frame [of review_content "demo_llm 5" demo_drafted demo_reviewed
      review_content demo_reviewed]
    topic_and_title_frame [of evaluate_content "demo_llm 6" demo_reviewed demo_final
      evaluate_content demo_final]
    demo_title demo_generate demo_review demo_evaluate demo_reach_reviewed
    step_START [of demo_llm 0 "initial_state ''Testing''"]
  by simp

subsection \<open>The last review entry\<close>

text \<open>
  C10: when the evaluation step returns, the last review entry is the verdict entry, the
  words \<open>Verdict: \<close> followed by the response as it came, and the entry that was last
  before, the critique, is the one before it. In a completed run the review entry that
  the script shows is a verdict entry, and the entry before it is the critique of the
  review step.
\<close>

theorem verdict_entry_is_last:
  "(evaluate_content invoke s = Inr s' \<longrightarrow>
      (\<exists>r. invoke (evaluate_content_prompt (content (last (blog_content s)))
                     (content (last (reviewed_content s)))) = Response r
          \<and> reviewed_content s' = reviewed_content s @ [AIMessage (''Verdict: '' @ r)]
          \<and> last (reviewed_content s') = AIMessage (''Verdict: '' @ r)
          \<and> reviewed_content s \<noteq> []
          \<and> last (butlast (reviewed_content s')) = last (reviewed_content s)))
   \<and> (invoke_graph llm fuel t = Some (Completed final_state) \<longrightarrow>
        (\<exists>draft r c. final_report final_state = Inr (draft, ''Verdict: '' @ r)
           \<and> last (reviewed_content final_state) = AIMessage (''Verdict: '' @ r)
           \<and> last (butlast (reviewed_content final_state)) = HumanMessage c))"
proof (intro conjI impI)
  assume "evaluate_content invoke s = Inr s'"
  from evaluate_content_Inr [OF this]
  show "\<exists>r. invoke (evaluate_content_prompt (content (last (blog_content s)))
                     (content (last (reviewed_content s)))) = Response r
          \<and> reviewed_content s' = reviewed_content s @ [AIMessage (''Verdict: '' @ r)]
          \<and> last (reviewed_content s') = AIMessage (''Verdict: '' @ r)
          \<and> reviewed_content s \<noteq> []
          \<and> last (butlast (reviewed_content s')) = last (reviewed_content s)"
    by auto
next
  assume "invoke_graph llm fuel t = Some (Completed final_state)"
  then obtain m k where run: "steps llm m (initial_config t) = Some (END, k, final_state)"
    unfolding invoke_graph_def using exec_Completed_steps by blast
  from steps_shape [OF run] obtain N c r where
    len: "length (blog_content final_state) = N + 1"
      "length (reviewed_content final_state) = 2 * N + 2"
    and crit: "reviewed_content final_state ! (2 * N) = HumanMessage c"
    and verd: "last (reviewed_content final_state) = AIMessage (''Verdict: '' @ r)"
    by auto
  from len have ne: "blog_content final_state \<noteq> []" "reviewed_content final_state \<noteq> []"
    by auto
  from len(2) have "butlast (reviewed_content final_state) \<noteq> []"
    by (metis One_nat_def Suc_1 add_Suc_right length_butlast diff_Suc_1 length_0_conv
        nat.simps(3) add.right_neutral)
  then have "last (butlast (reviewed_content final_state))
      = butlast (reviewed_content final_state) ! (2 * N)"
    using len(2) by (simp add: last_conv_nth)
  also have "\<dots> = reviewed_content final_state ! (2 * N)"
    using len(2) by (simp add: nth_butlast)
  finally have "last (butlast (reviewed_content final_state)) = HumanMessage c"
    using crit by simp
  moreover have "final_report final_state
      = Inr (content (last (blog_content final_state)), ''Verdict: '' @ r)"
    using ne verd by (simp add: final_report_def last_item_def)
  ultimately show "\<exists>draft r c. final_report final_state = Inr (draft, ''Verdict: '' @ r)
           \<and> last (reviewed_content final_state) = AIMessage (''Verdict: '' @ r)
           \<and> last (butlast (reviewed_content final_state)) = HumanMessage c"
    using verd by blast
qed

theorem verdict_entry_is_last_witness:
  "evaluate_content (demo_llm 6) demo_reviewed = Inr demo_final
   \<and> (\<exists>r. reviewed_content demo_final
           = reviewed_content demo_reviewed @ [AIMessage (''Verdict: '' @ r)]
         \<and> last (butlast (reviewed_content demo_final)) = last (reviewed_content demo_reviewed))
   \<and> last (reviewed_content demo_final) = AIMessage ''Verdict: PASS''
   \<and> last (butlast (reviewed_content demo_final)) = HumanMessage ''looks good''
   \<and> invoke_graph demo_llm 9 ''Testing'' = Some (Completed demo_final)
   \<and> (\<exists>draft r c. final_report demo_final = Inr (draft, ''Verdict: '' @ r)
         \<and> last (reviewed_content demo_final) = AIMessage (''Verdict: '' @ r)
         \<and> last (butlast (reviewed_content demo_final)) = HumanMessage c)"
proof -
  have last_entry: "last (reviewed_content demo_final) = AIMessage ''Verdict: PASS''"
    and before_last: "last (butlast (reviewed_content demo_final)) = HumanMessage ''looks good''"
    by (simp_all add: demo_final_def)
  from verdict_entry_is_last [of "demo_llm 6" demo_reviewed demo_final demo_llm 9
      "''Testing''" demo_final] demo_run
  have "\<exists>draft r c. final_report demo_final = Inr (draft, ''Verdict: '' @ r)
         \<and> last (reviewed_content demo_final) = AIMessage (''Verdict: '' @ r)
         \<and> last (butlast (reviewed_content demo_final)) = HumanMessage c"
    by blast
  moreover from verdict_entry_is_last [of "demo_llm 6" demo_reviewed demo_final demo_llm 9
      "''Testing''" demo_final] demo_evaluate
  have "\<exists>r. reviewed_content demo_final
           = reviewed_content demo_reviewed @ [AIMessage (''Verdict: '' @ r)]
         \<and> last (butlast (reviewed_content demo_final)) = last (reviewed_content demo_reviewed)"
    by blast
  ultimately show ?thesis
    using demo_evaluate demo_run last_entry before_last by blast
qed

subsection \<open>Failures of the language model\<close>




lemma outage_steps:
  "steps outage_llm 2 (initial_config ''Testing'') = Some (content_generator, 1, demo_titled)"
  by code_simp





subsection \<open>The prompts\<close>

text \<open>
  C8: the prompt of the content step is built from the title alone. Two states with the
  same title, whatever their review histories, give the same prompt, so the same call
  answers both alike: the same draft is appended to either, or both raise the same error.
\<close>

theorem content_prompt_depends_on_title_only:
  "title s1 = title s2 \<longrightarrow>
     generate_content_prompt s1 = generate_content_prompt s2
   \<and> (\<forall>r. invoke (generate_content_prompt s1) = Response r \<longrightarrow>
          generate_content invoke s1
            = Inr (s1\<lparr>blog_content := blog_content s1 @ [AIMessage r]\<rparr>)
        \<and> generate_content invoke s2
            = Inr (s2\<lparr>blog_content := blog_content s2 @ [AIMessage r]\<rparr>))
   \<and> (\<forall>x. invoke (generate_content_prompt s1) = Raised x \<longrightarrow>
          generate_content invoke s1 = Inl (ServiceError x)
        \<and> generate_content invoke s2 = Inl (ServiceError x))"
proof
  assume same: "title s1 = title s2"
  then have prompt: "generate_content_prompt s1 = generate_content_prompt s2"
    by (simp add: generate_content_prompt_def)
  then show "generate_content_prompt s1 = generate_content_prompt s2
   \<and> (\<forall>r. invoke (generate_content_prompt s1) = Response r \<longrightarrow>
          generate_content invoke s1
            = Inr (s1\<lparr>blog_content := blog_content s1 @ [AIMessage r]\<rparr>)
        \<and> generate_content invoke s2
            = Inr (s2\<lparr>blog_content := blog_content s2 @ [AIMessage r]\<rparr>))
   \<and> (\<forall>x. invoke (generate_content_prompt s1) = Raised x \<longrightarrow>
          generate_content invoke s1 = Inl (ServiceError x)
        \<and> generate_content invoke s2 = Inl (ServiceError x))"
    by (simp add: generate_content_def)
qed

lemma demo_prompt_answer:
  "demo_llm 4 (generate_content_prompt demo_titled) = Response ''Revised body''"
  by (simp add: demo_llm_def)

theorem content_prompt_depends_on_title_only_witness:
  "title demo_titled = title demo_retry
   \<and> reviewed_content demo_titled \<noteq> reviewed_content demo_retry
   \<and> generate_content_prompt demo_titled = generate_content_prompt demo_retry
   \<and> demo_llm 4 (generate_content_prompt demo_titled) = Response ''Revised body''
   \<and> generate_content (demo_llm 4) demo_titled
       = Inr (demo_titled\<lparr>blog_content := blog_content demo_titled @ [AIMessage ''Revised body'']\<rparr>)
   \<and> generate_content (demo_llm 4) demo_retry
       = Inr (demo_retry\<lparr>blog_content := blog_content demo_retry @ [AIMessage ''Revised body'']\<rparr>)
   \<and> outage_llm 1 (generate_content_prompt demo_titled) = Raised ''connection refused''
   \<and> generate_content (outage_llm 1) demo_titled = Inl (ServiceError ''connection refused'')
   \<and> generate_content (outage_llm 1) demo_retry = Inl (ServiceError ''connection refused'')"
proof -
  have same: "title demo_titled = title demo_retry"
    and differ: "reviewed_content demo_titled \<noteq> reviewed_content demo_retry"
    by (simp_all add: demo_titled_def demo_retry_def)
  have raised: "outage_llm 1 (generate_content_prompt demo_titled) = Raised ''connection refused''"
    by (simp add: outage_llm_def)
  from content_prompt_depends_on_title_only [of demo_titled demo_retry "demo_llm 4"]
    content_prompt_depends_on_title_only [of demo_titled demo_retry "outage_llm 1"]
    same differ demo_prompt_answer raised
  show ?thesis by blast
qed

subsection \<open>The title step\<close>

text \<open>
  C4, as the specification states it, fails: on an empty response the title step
  returns, with the empty text as title.
\<close>

theorem generate_title_empty_response_succeeds:
  "empty_service (generate_title_prompt (initial_state ''Testing'')) = Response []
   \<and> generate_title empty_service (initial_state ''Testing'')
       = Inr ((initial_state ''Testing'')\<lparr>title := []\<rparr>)"
  by (simp add: generate_title_def empty_service_def first_item_def strip_chars_def
      strip_where_def)

text \<open>
  C4, amended: the title step fails exactly when its call to the language model raises,
  and then with the error of that call; on an empty response it returns and the title is
  the empty text. It makes up no other title, and it makes its one call and no second:
  the engine, at a call that raises, ends the run whatever the next call would answer.
\<close>

theorem generate_title_fails_only_with_service:
  "(generate_title invoke s = Inl e \<longleftrightarrow>
      (\<exists>x. invoke (generate_title_prompt s) = Raised x \<and> e = ServiceError x))
   \<and> (invoke (generate_title_prompt s) = Response [] \<longrightarrow>
        generate_title invoke s = Inr (s\<lparr>title := []\<rparr>))
   \<and> (llm k (generate_title_prompt s) = Raised x \<longrightarrow>
        step llm (title_generator, k, s) = Abort (ServiceError x) s)"
proof (intro conjI impI)
  show "generate_title invoke s = Inl e \<longleftrightarrow>
      (\<exists>x. invoke (generate_title_prompt s) = Raised x \<and> e = ServiceError x)"
  proof (cases "invoke (generate_title_prompt s)")
    case (Response r)
    obtain line where "first_item (split (CHR 0x0A) r) = Inr line"
      using first_item_split by blast
    with Response show ?thesis by (simp add: generate_title_def)
  next
    case (Raised x)
    then show ?thesis by (auto simp: generate_title_def)
  qed
next
  assume "invoke (generate_title_prompt s) = Response []"
  then show "generate_title invoke s = Inr (s\<lparr>title := []\<rparr>)"
    by (simp add: generate_title_def first_item_def strip_chars_def strip_where_def)
next
  assume "llm k (generate_title_prompt s) = Raised x"
  then show "step llm (title_generator, k, s) = Abort (ServiceError x) s"
    by (simp add: step_node generate_title_def)
qed

theorem generate_title_fails_only_with_service_witness:
  "outage_llm 1 (generate_title_prompt demo_titled) = Raised ''connection refused''
   \<and> generate_title (outage_llm 1) demo_titled = Inl (ServiceError ''connection refused'')
   \<and> step outage_llm (title_generator, 1, demo_titled)
       = Abort (ServiceError ''connection refused'') demo_titled
   \<and> empty_service (generate_title_prompt demo_titled) = Response []
   \<and> generate_title empty_service demo_titled = Inr (demo_titled\<lparr>title := []\<rparr>)"
proof -
  have raised: "outage_llm 1 (generate_title_prompt demo_titled) = Raised ''connection refused''"
    by (simp add: outage_llm_def)
  have empty: "empty_service (generate_title_prompt demo_titled) = Response []"
    by (simp add: empty_service_def)
  from generate_title_fails_only_with_service [of "outage_llm 1" demo_titled
      "ServiceError ''connection refused''" outage_llm 1 "''connection refused''"]
    generate_title_fails_only_with_service [of empty_service demo_titled]
    raised empty
  show ?thesis by blast
qed

subsection \<open>The verdict\<close>




















end
